theory Spec2Isabelle
  imports Complex_Main "HOL-Library.Sublist" "HOL-Library.AList"
begin

section \<open>Sliding-window rate limiter (rate\_limiting.py)\<close>

text \<open>
  Timestamps are the values of \<^verbatim>\<open>time.time()\<close>. They are modelled as real numbers and
  the clock reading is an explicit argument of every operation, so that a sequence of calls at
  chosen clock values can be written down. \<^verbatim>\<open>self.requests\<close> is a
  \<^verbatim>\<open>defaultdict\<close> of deques: reading a missing key stores an empty deque under it.
\<close>

record AdvancedRateLimiter =
  requests :: "string \<rightharpoonup> real list"
  minute_counts :: "string \<rightharpoonup> int"
  last_minute_reset :: "string \<rightharpoonup> real"

definition new_limiter :: AdvancedRateLimiter where
  "new_limiter = \<lparr>requests = Map.empty, minute_counts = Map.empty, last_minute_reset = Map.empty\<rparr>"

text \<open>The deque read by \<^verbatim>\<open>self.requests[ip]\<close>: empty when the key is missing.\<close>

definition window :: "AdvancedRateLimiter \<Rightarrow> string \<Rightarrow> real list" where
  "window self ip = (case requests self ip of None \<Rightarrow> [] | Some dq \<Rightarrow> dq)"

text \<open>
  The cleaning loop
  \<^verbatim>\<open>while self.requests[ip] and self.requests[ip][0] < current_time - window_seconds: popleft()\<close>
  with \<open>bound = current_time - window_seconds\<close>.
\<close>

fun clean_old :: "real \<Rightarrow> real list \<Rightarrow> real list" where
  "clean_old bound [] = []"
| "clean_old bound (t # ts) = (if t < bound then clean_old bound ts else t # ts)"

definition is_allowed ::
  "AdvancedRateLimiter \<Rightarrow> real \<Rightarrow> string \<Rightarrow> int \<Rightarrow> int \<Rightarrow> bool \<times> AdvancedRateLimiter" where
  "is_allowed self current_time ip max_requests window_seconds =
     (let dq = clean_old (current_time - of_int window_seconds) (window self ip)
      in if max_requests \<le> int (length dq)
         then (False, self\<lparr>requests := (requests self)(ip \<mapsto> dq)\<rparr>)
         else (True, self\<lparr>requests := (requests self)(ip \<mapsto> dq @ [current_time])\<rparr>))"

text \<open>
  \<^verbatim>\<open>get_reset_time\<close> reads the deque as it is stored (the read itself stores an empty
  deque under a missing key) and runs no cleaning loop.
\<close>

definition get_reset_time ::
  "AdvancedRateLimiter \<Rightarrow> real \<Rightarrow> string \<Rightarrow> int \<Rightarrow> real \<times> AdvancedRateLimiter" where
  "get_reset_time self current_time ip window_seconds =
     (let self' = self\<lparr>requests := (requests self)(ip \<mapsto> window self ip)\<rparr>
      in case window self ip of
           [] \<Rightarrow> (current_time, self')
         | oldest_request # _ \<Rightarrow> (oldest_request + of_int window_seconds, self'))"

text \<open>
  A sequence of \<^verbatim>\<open>is_allowed\<close> calls with one fixed \<open>max_requests\<close>; each call has
  its own clock reading, client key and window length.
\<close>

fun run_checks ::
  "int \<Rightarrow> AdvancedRateLimiter \<Rightarrow> (real \<times> string \<times> int) list \<Rightarrow> AdvancedRateLimiter" where
  "run_checks max_requests self [] = self"
| "run_checks max_requests self ((t, ip, w) # calls) =
     run_checks max_requests (snd (is_allowed self t ip max_requests w)) calls"

text \<open>
  The reading of \<open>resetTime\<close> in the specification's words: entries older than
  \<open>now - windowSeconds\<close> are evicted on the read, the oldest retained entry plus the window
  length is returned, and the current time when nothing is retained.
\<close>

definition spec_reset_time :: "AdvancedRateLimiter \<Rightarrow> real \<Rightarrow> string \<Rightarrow> int \<Rightarrow> real" where
  "spec_reset_time self current_time ip window_seconds =
     (case filter (\<lambda>t. \<not> t < current_time - of_int window_seconds) (window self ip) of
        [] \<Rightarrow> current_time
      | oldest # _ \<Rightarrow> oldest + of_int window_seconds)"

text \<open>
  Invariant of every window under non-decreasing clock readings: the stored timestamps are in
  non-decreasing order and none is later than the last clock reading.
\<close>

definition windows_ordered :: "real \<Rightarrow> AdvancedRateLimiter \<Rightarrow> bool" where
  "windows_ordered b self =
     (\<forall>ip. sorted (window self ip) \<and> (\<forall>x \<in> set (window self ip). x \<le> b))"

section \<open>Input validation and response sanitising (error\_handling.py)\<close>

subsection \<open>Python string primitives\<close>

text \<open>
  A Python \<^verbatim>\<open>str\<close> is modelled as a \<^typ>\<open>string\<close>, each character standing for
  the code point of the same number; the model therefore covers the code points 0 to 255.
  On that range \<^verbatim>\<open>str.lower\<close> maps A-Z and the Latin-1 capitals (192 to 222 but
  215) to the letter 32 places later, whitespace for \<^verbatim>\<open>strip\<close> and
  \<^verbatim>\<open>split\<close> is 9-13, 28-32, 133 and 160, and a regular expression compiled with
  \<^verbatim>\<open>re.IGNORECASE\<close> matches an ASCII pattern character against exactly the characters
  that have the same lower case.
\<close>

definition is_space :: "char \<Rightarrow> bool" where
  "is_space c =
     (let n = (of_char c :: nat)
      in (9 \<le> n \<and> n \<le> 13) \<or> (28 \<le> n \<and> n \<le> 32) \<or> n = 133 \<or> n = 160)"

definition lower_char :: "char \<Rightarrow> char" where
  "lower_char c =
     (let n = (of_char c :: nat)
      in if (65 \<le> n \<and> n \<le> 90) \<or> (192 \<le> n \<and> n \<le> 222 \<and> n \<noteq> 215)
         then char_of (n + 32) else c)"

definition lower :: "string \<Rightarrow> string" where
  "lower s = map lower_char s"

definition strip :: "string \<Rightarrow> string" where
  "strip s = rev (dropWhile is_space (rev (dropWhile is_space s)))"

text \<open>
  \<^verbatim>\<open>str.split()\<close> without arguments: the maximal runs of non-whitespace characters, in
  order. \<open>cur\<close> is the word being read.
\<close>

fun split_from :: "string \<Rightarrow> string \<Rightarrow> string list" where
  "split_from cur [] = (if cur = [] then [] else [cur])"
| "split_from cur (c # cs) =
     (if is_space c
      then (if cur = [] then split_from [] cs else cur # split_from [] cs)
      else split_from (cur @ [c]) cs)"

definition split :: "string \<Rightarrow> string list" where
  "split s = split_from [] s"

subsection \<open>The exception classes\<close>

text \<open>
  The classes of error\_handling.py, each carrying its message.
  \<^verbatim>\<open>VectorDBError\<close>, \<^verbatim>\<open>OpenAIError\<close>, \<^verbatim>\<open>ValidationError\<close> and
  \<^verbatim>\<open>RateLimitError\<close> are subclasses of \<^verbatim>\<open>RAGError\<close>.
\<close>

datatype rag_error =
    RAGError string
  | VectorDBError string
  | OpenAIError string
  | ValidationError string
  | RateLimitError string

subsection \<open>validate\_input\<close>

definition dangerous_patterns :: "string list" where
  "dangerous_patterns =
     [''<script'', ''javascript:'', ''data:'', ''vbscript:'',
      ''onload='', ''onerror='', ''onclick='']"

text \<open>
  The loop filling the dictionary \<^verbatim>\<open>word_counts\<close>
  (\<^verbatim>\<open>word_counts[word] = word_counts.get(word, 0) + 1\<close>); the dictionary is an
  association list in insertion order.
\<close>

fun count_words :: "(string \<times> nat) list \<Rightarrow> string list \<Rightarrow> (string \<times> nat) list" where
  "count_words word_counts [] = word_counts"
| "count_words word_counts (word # words) =
     count_words
       (AList.update word ((case map_of word_counts word of None \<Rightarrow> 0 | Some n \<Rightarrow> n) + 1)
          word_counts)
       words"

text \<open>
  \<^verbatim>\<open>validate_input\<close> returns \<open>Inr ()\<close> when it returns normally and \<open>Inl e\<close> when
  it raises \<open>e\<close>. \<^verbatim>\<open>max(word_counts.values())\<close> is taken of a non-empty dictionary,
  since more than ten words were counted.
\<close>

definition validate_input :: "string \<Rightarrow> rag_error + unit" where
  "validate_input message =
     (if message = [] \<or> strip message = []
      then Inl (ValidationError ''Message cannot be empty'')
      else if 2000 < length message
      then Inl (ValidationError ''Message is too long. Please keep it under 2000 characters.'')
      else if list_ex (\<lambda>pattern. sublist pattern (lower message)) dangerous_patterns
      then Inl (ValidationError ''Message contains potentially harmful content'')
      else
        (let words = split message
         in if 10 < length words \<and>
               real (length words) * 0.5 < real (Max (set (map snd (count_words [] words))))
            then Inl (ValidationError ''Message appears to contain excessive repetition'')
            else Inr ()))"

subsection \<open>sanitize\_response\<close>

text \<open>
  \<open>starts_ci p s\<close>: the literal pattern \<open>p\<close> matches at the start of \<open>s\<close> under
  \<^verbatim>\<open>re.IGNORECASE\<close>.
\<close>

definition starts_ci :: "string \<Rightarrow> string \<Rightarrow> bool" where
  "starts_ci p s = prefix (lower p) (lower s)"

text \<open>
  \<^verbatim>\<open>re.sub(p, '', s, flags=re.IGNORECASE)\<close> for a literal pattern \<open>p\<close>: the scan
  goes from left to right, a match is deleted and the scan resumes behind it, and a character at
  which no match starts is copied.
\<close>

function re_sub_literal :: "string \<Rightarrow> string \<Rightarrow> string" where
  "re_sub_literal p [] = []"
| "re_sub_literal p (c # cs) =
     (if p \<noteq> [] \<and> starts_ci p (c # cs)
      then re_sub_literal p (drop (length p) (c # cs))
      else c # re_sub_literal p cs)"
  by pat_completeness auto
termination
  by (relation "measure (\<lambda>(p, s). length s)") auto

text \<open>Offset of the first match of the literal pattern \<open>p\<close> in \<open>s\<close>, if there is one.\<close>

fun find_ci :: "string \<Rightarrow> string \<Rightarrow> nat option" where
  "find_ci p [] = (if p = [] then Some 0 else None)"
| "find_ci p (c # cs) =
     (if starts_ci p (c # cs) then Some 0 else map_option Suc (find_ci p cs))"

text \<open>
  \<^verbatim>\<open>re.sub(r'<script.*?</script>', '', s, flags=re.DOTALL | re.IGNORECASE)\<close>: a match
  starts at an opening \<^verbatim>\<open><script\<close> (7 characters) that is followed, anywhere later and
  across newlines, by a closing \<^verbatim>\<open></script>\<close> (9 characters); being non-greedy it
  ends with the first such closing tag.
\<close>

function re_sub_script :: "string \<Rightarrow> string" where
  "re_sub_script [] = []"
| "re_sub_script (c # cs) =
     (if starts_ci ''<script'' (c # cs)
      then (case find_ci ''</script>'' (drop 7 (c # cs)) of
              Some k \<Rightarrow> re_sub_script (drop (7 + k + 9) (c # cs))
            | None \<Rightarrow> c # re_sub_script cs)
      else c # re_sub_script cs)"
  by pat_completeness auto
termination
  by (relation "measure length") auto

definition sanitize_response :: "string \<Rightarrow> string" where
  "sanitize_response response =
     (let response = re_sub_script response;
          response = re_sub_literal ''javascript:'' response;
          response = re_sub_literal ''data:'' response;
          response = (if 5000 < length response then take 5000 response @ ''...'' else response)
      in strip response)"

text \<open>
  The vocabulary of the specification: \<open>occurs_ci p s\<close> says that the text \<open>s\<close> contains
  the pattern \<open>p\<close> in some mixture of upper and lower case.
\<close>

definition occurs_ci :: "string \<Rightarrow> string \<Rightarrow> bool" where
  "occurs_ci p s = (\<exists>a x b. s = a @ x @ b \<and> lower x = lower p)"

text \<open>
  The queries the specification has \<open>validate\<close> reject: empty or whitespace only, longer
  than 2000 characters, containing an unsafe pattern in any case, or more than ten words with one
  word making up over half of them.
\<close>

definition spec_invalid :: "string \<Rightarrow> bool" where
  "spec_invalid q =
     (q = [] \<or> (\<forall>c \<in> set q. is_space c) \<or> 2000 < length q
      \<or> (\<exists>p \<in> set dangerous_patterns. occurs_ci p q)
      \<or> (10 < length (split q) \<and> (\<exists>w. length (split q) < 2 * count_list (split q) w)))"







section \<open>The RAG service (config.py, rag\_service\_gemini.py)\<close>

subsection \<open>Settings\<close>

text \<open>The fields of \<^verbatim>\<open>Settings\<close> that the service reads or the claims name.\<close>

record Settings =
  gemini_model :: string
  gemini_temperature :: real
  gemini_max_tokens :: int
  vector_dimension :: int
  max_context_chunks :: int
  similarity_threshold :: real

definition default_settings :: Settings where
  "default_settings =
     \<lparr>gemini_model = ''gemini-2.0-flash'', gemini_temperature = 0.2, gemini_max_tokens = 1200,
      vector_dimension = 384, max_context_chunks = 5, similarity_threshold = 0.7\<rparr>"

subsection \<open>The collaborators\<close>

text \<open>
  A match of the vector store: its metadata dictionary (\<open>None\<close> when the key is missing or its
  value is \<^verbatim>\<open>None\<close>) and its score (\<open>None\<close> when missing).
\<close>

record pinecone_match =
  metadata :: "(string \<times> string) list option"
  score :: "real option"

text \<open>
  The service object. \<open>index\<close> is \<open>None\<close> when no index is connected; a query of the
  index with a vector and \<open>top_k\<close> raises (\<open>Inl\<close> of the exception's text) or returns a
  result whose \<^verbatim>\<open>matches\<close> are a list (\<open>None\<close> when the result has none).
  \<open>model prompt k\<close> is the outcome of the \<open>k\<close>-th call of \<^verbatim>\<open>generate_content\<close> and
  the reading of \<^verbatim>\<open>response.text\<close> within one retry loop: \<open>Inl\<close> of the exception's text
  or \<open>Inr\<close> of the reply. Float values (scores, vector entries) are modelled as reals.
\<close>

record GeminiRAGService =
  index :: "(real list \<Rightarrow> int \<Rightarrow> string + pinecone_match list option) option"
  model :: "string \<Rightarrow> nat \<Rightarrow> string + string"

subsection \<open>\_get\_free\_embedding\<close>

text \<open>
  \<^verbatim>\<open>int(s, 16)\<close> on the slices of a hex digest: strings of hexadecimal digits. \<open>None\<close>
  stands for the \<^verbatim>\<open>ValueError\<close> of a string that is not one.
\<close>

definition hex_digit :: "char \<Rightarrow> nat option" where
  "hex_digit c =
     (let n = (of_char c :: nat)
      in if 48 \<le> n \<and> n \<le> 57 then Some (n - 48)
         else if 97 \<le> n \<and> n \<le> 102 then Some (n - 87)
         else if 65 \<le> n \<and> n \<le> 70 then Some (n - 55)
         else None)"

fun int16_from :: "nat \<Rightarrow> string \<Rightarrow> nat option" where
  "int16_from acc [] = Some acc"
| "int16_from acc (c # cs) =
     (case hex_digit c of None \<Rightarrow> None | Some d \<Rightarrow> int16_from (16 * acc + d) cs)"

definition int16 :: "string \<Rightarrow> nat option" where
  "int16 s = (if s = [] then None else int16_from 0 s)"

text \<open>
  The loop \<^verbatim>\<open>for i in range(0, len(text_hash), 2)\<close>, appending
  \<^verbatim>\<open>int(text_hash[i:i+2], 16) / 255.0\<close>; \<open>None\<close> when a conversion raises.
\<close>

fun hash_values :: "string \<Rightarrow> real list option" where
  "hash_values [] = Some []"
| "hash_values [c] =
     (case int16 [c] of None \<Rightarrow> None | Some n \<Rightarrow> Some [real n / 255])"
| "hash_values (c # d # rest) =
     (case int16 [c, d] of
        None \<Rightarrow> None
      | Some n \<Rightarrow>
         (case hash_values rest of None \<Rightarrow> None | Some vals \<Rightarrow> Some (real n / 255 # vals)))"

text \<open>
  \<open>md5_hexdigest text\<close> stands for \<^verbatim>\<open>hashlib.md5(text.encode()).hexdigest()\<close>, a
  library call taken as a parameter; \<open>None\<close> when it raises. Any exception inside the
  \<^verbatim>\<open>try\<close> block leads to the zero vector. The padding loop and the slice
  \<^verbatim>\<open>embedding[:384]\<close> follow.
\<close>

definition get_free_embedding :: "(string \<Rightarrow> string option) \<Rightarrow> string \<Rightarrow> real list" where
  "get_free_embedding md5_hexdigest text =
     (case md5_hexdigest text of
        None \<Rightarrow> replicate 384 0
      | Some text_hash \<Rightarrow>
         (case hash_values text_hash of
            None \<Rightarrow> replicate 384 0
          | Some embedding \<Rightarrow>
              take 384 (embedding @ replicate (384 - length embedding) 0)))"

subsection \<open>\_enhance\_query\<close>

definition math_keywords :: "(string \<times> string) list" where
  "math_keywords =
     [(''solve'', ''solution steps method''),
      (''calculate'', ''calculation formula''),
      (''explain'', ''explanation concept definition''),
      (''what is'', ''definition meaning concept''),
      (''how to'', ''steps method procedure''),
      (''find'', ''solution answer result'')]"

fun enhance_with :: "string \<Rightarrow> (string \<times> string) list \<Rightarrow> string" where
  "enhance_with query [] = query"
| "enhance_with query ((keyword, additions) # rest) =
     (if sublist keyword (lower query) then query @ '' '' @ additions
      else enhance_with query rest)"

definition enhance_query :: "string \<Rightarrow> string" where
  "enhance_query query = enhance_with query math_keywords"

subsection \<open>\_get\_relevant\_context\<close>

text \<open>
  The test \<^verbatim>\<open>'metadata' in match and match['metadata'] and 'text' in match['metadata']\<close>
  and the two lists \<^verbatim>\<open>documents\<close> and \<^verbatim>\<open>similarity_scores\<close> filled side by side
  (the dictionary branch and the object branch of the source do the same).
\<close>

definition has_text :: "pinecone_match \<Rightarrow> bool" where
  "has_text m =
     (case metadata m of None \<Rightarrow> False | Some md \<Rightarrow> md \<noteq> [] \<and> map_of md ''text'' \<noteq> None)"

definition match_text :: "pinecone_match \<Rightarrow> string" where
  "match_text m =
     (case metadata m of
        None \<Rightarrow> []
      | Some md \<Rightarrow> (case map_of md ''text'' of None \<Rightarrow> [] | Some t \<Rightarrow> t))"

definition match_score :: "pinecone_match \<Rightarrow> real" where
  "match_score m = (case score m of None \<Rightarrow> 0 | Some s \<Rightarrow> s)"

definition documents :: "pinecone_match list \<Rightarrow> string list" where
  "documents matches = map match_text (filter has_text matches)"

definition similarity_scores :: "pinecone_match list \<Rightarrow> real list" where
  "similarity_scores matches = map match_score (filter has_text matches)"

text \<open>
  \<open>n_results = None\<close> is the default argument; \<^verbatim>\<open>n_results or ...\<close> also replaces 0.
  An exception of the query is wrapped into a \<^verbatim>\<open>VectorDBError\<close>.
\<close>

definition get_relevant_context ::
  "(string \<Rightarrow> string option) \<Rightarrow> Settings \<Rightarrow> GeminiRAGService \<Rightarrow> string \<Rightarrow> int option
   \<Rightarrow> rag_error + (string list \<times> real list)" where
  "get_relevant_context md5_hexdigest settings self query n_results =
     (case index self of
        None \<Rightarrow> Inl (VectorDBError ''Pinecone index not initialized'')
      | Some idx \<Rightarrow>
         (let n_results =
                (case n_results of
                   None \<Rightarrow> max_context_chunks settings
                 | Some n \<Rightarrow> if n = 0 then max_context_chunks settings else n);
              enhanced_query = enhance_query query;
              query_vector = get_free_embedding md5_hexdigest enhanced_query
          in case idx query_vector n_results of
               Inl e \<Rightarrow> Inl (VectorDBError (''Pinecone search failed: '' @ e))
             | Inr search_results \<Rightarrow>
                (let matches = (case search_results of None \<Rightarrow> [] | Some ms \<Rightarrow> ms);
                     filtered =
                       filter (\<lambda>(doc, score). similarity_threshold settings \<le> score)
                         (zip (documents matches) (similarity_scores matches))
                 in Inr (map fst filtered, map snd filtered))))"

subsection \<open>\_construct\_enhanced\_prompt\<close>

text \<open>
  The deduplication loop with its two variables \<^verbatim>\<open>unique_context\<close> and
  \<^verbatim>\<open>seen_content\<close>.
\<close>

fun dedup_loop :: "string list \<Rightarrow> string set \<Rightarrow> string list \<Rightarrow> string list" where
  "dedup_loop unique_context seen_content [] = unique_context"
| "dedup_loop unique_context seen_content (chunk # chunks) =
     (let chunk_key = take 50 chunk
      in if chunk_key \<notin> seen_content
         then dedup_loop (unique_context @ [chunk]) (insert chunk_key seen_content) chunks
         else dedup_loop unique_context seen_content chunks)"

definition unique_context :: "string list \<Rightarrow> string list" where
  "unique_context context_chunks = dedup_loop [] {} context_chunks"

text \<open>\<^verbatim>\<open>sep.join(xs)\<close>.\<close>

fun join :: "string \<Rightarrow> string list \<Rightarrow> string" where
  "join sep [] = []"
| "join sep [x] = x"
| "join sep (x # y # ys) = x @ sep @ join sep (y # ys)"

definition context_block :: "string list \<Rightarrow> string" where
  "context_block context_chunks = join ''\<newline>\<newline>'' (unique_context context_chunks)"

text \<open>
  The prompt is the fixed framing, the context block, the question and the fixed formatting
  rules. The rules (the text of the template from \<^verbatim>\<open>IMPORTANT FORMATTING RULES\<close> to its
  end) contain a code point beyond 255 and are passed in as \<open>formatting_rules\<close>; nothing
  proved here depends on them.
\<close>

definition prompt_head :: string where
  "prompt_head =
     ''You are a math tutor. Answer clearly and concisely with clean formatting.\<newline>\<newline>TEXTBOOK CONTENT (from Mathematics.pdf):\<newline>''"

definition question_label :: string where
  "question_label = ''\<newline>\<newline>STUDENT QUESTION: ''"

definition construct_enhanced_prompt :: "string \<Rightarrow> string \<Rightarrow> string list \<Rightarrow> string" where
  "construct_enhanced_prompt formatting_rules query context_chunks =
     prompt_head @ context_block context_chunks @ question_label @ query
       @ ''\<newline>\<newline>'' @ formatting_rules"

subsection \<open>\_call\_gemini\_with\_retry\<close>

text \<open>\<^verbatim>\<open>str\<close> of an integer, for the f-string of the error message.\<close>

fun str_nat :: "nat \<Rightarrow> string" where
  "str_nat n =
     (if n < 10 then [char_of (48 + n)]
      else str_nat (n div 10) @ [char_of (48 + n mod 10)])"

definition str_int :: "int \<Rightarrow> string" where
  "str_int i = (if i < 0 then CHR ''-'' # str_nat (nat (- i)) else str_nat (nat i))"

text \<open>
  What the generation client does to the outside: calls of the model and sleeps (in seconds).
\<close>

datatype event = GenerateContent string | Sleep nat

text \<open>
  The loop \<^verbatim>\<open>for attempt in range(max_retries)\<close>; \<open>remaining\<close> counts the values of
  the range not yet taken. When the range is exhausted the function falls off its end and
  returns \<^verbatim>\<open>None\<close> (\<open>Inr None\<close>). The result comes with the trace of events.
\<close>

fun retry_loop ::
  "(string \<Rightarrow> nat \<Rightarrow> string + string) \<Rightarrow> string \<Rightarrow> int \<Rightarrow> nat \<Rightarrow> nat
   \<Rightarrow> (rag_error + string option) \<times> event list" where
  "retry_loop mdl prompt max_retries attempt 0 = (Inr None, [])"
| "retry_loop mdl prompt max_retries attempt (Suc remaining) =
     (case mdl prompt attempt of
        Inr text \<Rightarrow> (Inr (Some text), [GenerateContent prompt])
      | Inl e \<Rightarrow>
         if int attempt = max_retries - 1
         then (Inl (RAGError (''Gemini API call failed after '' @ str_int max_retries
                              @ '' attempts: '' @ e)),
               [GenerateContent prompt])
         else (let (result, trace) = retry_loop mdl prompt max_retries (Suc attempt) remaining
               in (result, GenerateContent prompt # Sleep (2 ^ attempt) # trace)))"

definition call_gemini_with_retry ::
  "GeminiRAGService \<Rightarrow> string \<Rightarrow> int \<Rightarrow> (rag_error + string option) \<times> event list" where
  "call_gemini_with_retry self prompt max_retries =
     retry_loop (model self) prompt max_retries 0 (nat max_retries)"

subsection \<open>generate\_response\<close>

definition no_information_message :: string where
  "no_information_message =
     ''I couldn't find relevant information in the Mathematics textbook to answer your question accurately. Please try rephrasing your question or ask about a different math topic.''"

text \<open>
  The pipeline. Errors of the three classes are raised again as they are; the retry loop is
  called with its default of three attempts, so it cannot return \<^verbatim>\<open>None\<close>; were it to,
  \<^verbatim>\<open>sanitize_response\<close> would raise a \<^verbatim>\<open>TypeError\<close>, which the handler wraps.
  Logging is left out. The second component is the trace of the generation client.
\<close>

definition generate_response ::
  "(string \<Rightarrow> string option) \<Rightarrow> Settings \<Rightarrow> string \<Rightarrow> GeminiRAGService \<Rightarrow> string
   \<Rightarrow> (rag_error + string) \<times> event list" where
  "generate_response md5_hexdigest settings formatting_rules self query =
     (case validate_input query of
        Inl e \<Rightarrow> (Inl e, [])
      | Inr _ \<Rightarrow>
         (case get_relevant_context md5_hexdigest settings self query None of
            Inl e \<Rightarrow> (Inl e, [])
          | Inr (context_chunks, scores) \<Rightarrow>
             if context_chunks = [] then (Inr no_information_message, [])
             else
               (let prompt = construct_enhanced_prompt formatting_rules query context_chunks
                in case call_gemini_with_retry self prompt 3 of
                     (Inl e, trace) \<Rightarrow> (Inl e, trace)
                   | (Inr None, trace) \<Rightarrow>
                       (Inl (RAGError (''Unexpected error in RAG pipeline: ''
                          @ ''expected string or bytes-like object, got '' @ [CHR 0x27]
                          @ ''NoneType'' @ [CHR 0x27])), trace)
                   | (Inr (Some response), trace) \<Rightarrow> (Inr (sanitize_response response), trace))))"

text \<open>
  Helper for the proofs about the deduplication loop: the passages the loop still adds when
  \<open>seen\<close> holds the keys met so far.
\<close>

fun fresh_chunks :: "string set \<Rightarrow> string list \<Rightarrow> string list" where
  "fresh_chunks seen [] = []"
| "fresh_chunks seen (chunk # chunks) =
     (if take 50 chunk \<in> seen then fresh_chunks seen chunks
      else chunk # fresh_chunks (insert (take 50 chunk) seen) chunks)"

text \<open>Reading a trace: the number of model calls made and the sleeps taken, in order.\<close>

fun attempts_made :: "event list \<Rightarrow> nat" where
  "attempts_made [] = 0"
| "attempts_made (GenerateContent _ # evs) = Suc (attempts_made evs)"
| "attempts_made (Sleep _ # evs) = attempts_made evs"

fun sleeps :: "event list \<Rightarrow> nat list" where
  "sleeps [] = []"
| "sleeps (GenerateContent _ # evs) = sleeps evs"
| "sleeps (Sleep d # evs) = d # sleeps evs"

text \<open>
  The trace of \<open>k\<close> failed attempts numbered from \<open>a\<close>, each followed by its sleep, and of
  one more attempt.
\<close>

definition failed_then_call :: "string \<Rightarrow> nat \<Rightarrow> nat \<Rightarrow> event list" where
  "failed_then_call prompt a k =
     concat (map (\<lambda>i. [GenerateContent prompt, Sleep (2 ^ i)]) [a..<a + k])
       @ [GenerateContent prompt]"

text \<open>
  The store's ranking as the retriever reads it: the passages that carry a text, each with its
  score, in the order in which the store returned them.
\<close>

definition store_ranking :: "pinecone_match list option \<Rightarrow> (string \<times> real) list" where
  "store_ranking search_results =
     (let matches = (case search_results of None \<Rightarrow> [] | Some ms \<Rightarrow> ms)
      in zip (documents matches) (similarity_scores matches))"

section \<open>Properties of the rate limiter\<close>

lemma clean_old_dropWhile: "clean_old b ts = dropWhile (\<lambda>t. t < b) ts"
  by (induction ts) auto

lemma clean_old_length: "length (clean_old b ts) \<le> length ts"
  by (induction ts) (auto intro: le_SucI)

lemma clean_old_same_length: "length (clean_old b ts) = length ts \<Longrightarrow> clean_old b ts = ts"
proof (induction ts)
  case Nil
  then show ?case by simp
next
  case (Cons t ts)
  show ?case
  proof (cases "t < b")
    case True
    have "length (clean_old b ts) \<le> length ts" by (rule clean_old_length)
    with True Cons.prems show ?thesis by simp
  next
    case False
    then show ?thesis by simp
  qed
qed

lemma clean_old_sorted: "sorted ts \<Longrightarrow> sorted (clean_old b ts)"
  by (induction ts) auto

lemma clean_old_subset: "set (clean_old b ts) \<subseteq> set ts"
  by (induction ts) auto

lemma window_after_is_allowed:
  "window (snd (is_allowed self t ip m w)) k =
     (if k = ip
      then (let dq = clean_old (t - of_int w) (window self ip)
            in if m \<le> int (length dq) then dq else dq @ [t])
      else window self k)"
  by (simp add: is_allowed_def window_def Let_def)

lemma window_new: "window new_limiter k = []"
  by (simp add: window_def new_limiter_def)

lemma is_allowed_result:
  "fst (is_allowed self t ip m w) = (int (length (clean_old (t - of_int w) (window self ip))) < m)"
  by (auto simp: is_allowed_def Let_def)


lemma windows_ordered_new: "windows_ordered b new_limiter"
  by (simp add: windows_ordered_def window_def new_limiter_def)

lemma windows_ordered_mono: "windows_ordered b self \<Longrightarrow> b \<le> b' \<Longrightarrow> windows_ordered b' self"
  unfolding windows_ordered_def by (meson order_trans)

lemma windows_ordered_step:
  assumes "windows_ordered b self" and "b \<le> t"
  shows "windows_ordered t (snd (is_allowed self t ip m w))"
proof -
  let ?dq = "clean_old (t - of_int w) (window self ip)"
  have old: "sorted (window self k)" "\<forall>x \<in> set (window self k). x \<le> t" for k
    using assms unfolding windows_ordered_def by (auto intro: order_trans)
  have s: "sorted ?dq" using old(1) by (rule clean_old_sorted)
  have b: "\<forall>x \<in> set ?dq. x \<le> t" using old(2) clean_old_subset by blast
  have "sorted (?dq @ [t])" using s b by (simp add: sorted_append)
  with s b old show ?thesis
    unfolding windows_ordered_def window_after_is_allowed by (auto simp: Let_def)
qed

lemma windows_ordered_run:
  "windows_ordered b self \<Longrightarrow> sorted (b # map fst calls) \<Longrightarrow>
   \<exists>b'. windows_ordered b' (run_checks m self calls)"
proof (induction calls arbitrary: b self)
  case Nil
  then show ?case by auto
next
  case (Cons c calls)
  obtain t ip w where c: "c = (t, ip, w)" by (cases c)
  from Cons.prems have "b \<le> t" and srt: "sorted (t # map fst calls)" by (auto simp: c)
  with Cons.prems(1) have "windows_ordered t (snd (is_allowed self t ip m w))"
    by (simp add: windows_ordered_step)
  from Cons.IH[OF this srt] show ?case by (simp add: c)
qed

lemma window_length_step:
  assumes "0 \<le> m" and "\<forall>k. int (length (window self k)) \<le> m"
  shows "int (length (window (snd (is_allowed self t ip m w)) k)) \<le> m"
proof -
  have "length (clean_old (t - of_int w) (window self ip)) \<le> length (window self ip)"
    by (rule clean_old_length)
  moreover have "int (length (window self ip)) \<le> m" "int (length (window self k)) \<le> m"
    using assms(2) by auto
  ultimately show ?thesis
    unfolding window_after_is_allowed by (auto simp: Let_def)
qed

lemma window_length_run:
  "0 \<le> m \<Longrightarrow> \<forall>k. int (length (window self k)) \<le> m \<Longrightarrow>
   int (length (window (run_checks m self calls) k)) \<le> m"
proof (induction calls arbitrary: self)
  case Nil
  then show ?case by simp
next
  case (Cons c calls)
  obtain t ip w where c: "c = (t, ip, w)" by (cases c)
  have "\<forall>k. int (length (window (snd (is_allowed self t ip m w)) k)) \<le> m"
    using Cons.prems by (simp add: window_length_step)
  from Cons.IH[OF Cons.prems(1) this] show ?case by (simp add: c)
qed

lemma rejected_keeps_window:
  assumes "int (length (window self ip)) \<le> m" and "\<not> fst (is_allowed self t ip m w)"
  shows "window (snd (is_allowed self t ip m w)) ip = window self ip"
proof -
  let ?dq = "clean_old (t - of_int w) (window self ip)"
  from assms(2) have full: "m \<le> int (length ?dq)" by (simp add: is_allowed_result)
  have "length ?dq \<le> length (window self ip)" by (rule clean_old_length)
  with full assms(1) have "length ?dq = length (window self ip)" by linarith
  then have "?dq = window self ip" by (rule clean_old_same_length)
  with full show ?thesis by (simp add: window_after_is_allowed Let_def)
qed

text \<open>
  Claim C1. Starting from an empty window for a client key, with \<open>max_requests = 3\<close> and
  \<open>window_seconds = 60\<close>: three checks at one clock reading are allowed, a fourth at the
  same reading is rejected and leaves the stored window as it was (the three admitted timestamps,
  the rejected one not recorded), and a check made after the clock has advanced past the window
  is allowed again. More generally, a rejected check on a window holding at most three timestamps
  leaves that window unchanged.
\<close>

theorem is_allowed_three_then_reject:
  assumes "window s0 ip = []" and "t + 60 < t'"
  shows "let r1 = is_allowed s0 t ip 3 60;
             r2 = is_allowed (snd r1) t ip 3 60;
             r3 = is_allowed (snd r2) t ip 3 60;
             r4 = is_allowed (snd r3) t ip 3 60;
             r5 = is_allowed (snd r4) t' ip 3 60
         in fst r1 \<and> fst r2 \<and> fst r3 \<and> \<not> fst r4
            \<and> window (snd r3) ip = [t, t, t]
            \<and> window (snd r4) ip = window (snd r3) ip
            \<and> fst r5
            \<and> (\<forall>s u. int (length (window s ip)) \<le> 3 \<and> \<not> fst (is_allowed s u ip 3 60)
                  \<longrightarrow> window (snd (is_allowed s u ip 3 60)) ip = window s ip)"
proof -
  have gen: "\<forall>s u. int (length (window s ip)) \<le> 3 \<and> \<not> fst (is_allowed s u ip 3 60)
                  \<longrightarrow> window (snd (is_allowed s u ip 3 60)) ip = window s ip"
    using rejected_keeps_window by blast
  have "t < t' - 60" using assms(2) by simp
  with assms(1) gen show ?thesis
    by (simp add: Let_def is_allowed_result window_after_is_allowed)
qed

theorem is_allowed_three_then_reject_witness:
  "let r1 = is_allowed new_limiter 1000 ''10.0.0.1'' 3 60;
       r2 = is_allowed (snd r1) 1000 ''10.0.0.1'' 3 60;
       r3 = is_allowed (snd r2) 1000 ''10.0.0.1'' 3 60;
       r4 = is_allowed (snd r3) 1000 ''10.0.0.1'' 3 60;
       r5 = is_allowed (snd r4) 1061 ''10.0.0.1'' 3 60
   in window new_limiter ''10.0.0.1'' = [] \<and> (1000::real) + 60 < 1061
      \<and> fst r1 \<and> fst r2 \<and> fst r3 \<and> \<not> fst r4
      \<and> window (snd r4) ''10.0.0.1'' = [1000, 1000, 1000]
      \<and> fst r5"
proof -
  have e: "window new_limiter ''10.0.0.1'' = []"
    by (simp add: window_def new_limiter_def)
  have l: "(1000::real) + 60 < 1061" by simp
  show ?thesis
    using is_allowed_three_then_reject [OF e l] e l by (simp add: Let_def)
qed

text \<open>
  Claim C10, as stated for every \<open>max_requests\<close>, fails for a negative one: every check is
  rejected, the window stays empty, and its length 0 is not at most \<open>max_requests\<close>.
\<close>

theorem window_bound_negative_counterexample:
  "\<not> fst (is_allowed new_limiter 0 ''10.0.0.1'' (- 1) 60) \<and>
   \<not> int (length (window (run_checks (- 1) new_limiter [(0, ''10.0.0.1'', 60)]) ''10.0.0.1'')) \<le> - 1"
  by (simp add: is_allowed_result window_after_is_allowed window_new)

text \<open>
  Claim C10, amended: for every client key and every fixed \<open>max_requests \<ge> 0\<close>, after any
  sequence of \<^verbatim>\<open>is_allowed\<close> calls (on any keys, with any window lengths) made on a
  fresh limiter with non-decreasing clock readings, the window stored for the key holds at most
  \<open>max_requests\<close> timestamps and they are in non-decreasing order.
\<close>

theorem window_bounded_and_sorted:
  assumes "0 \<le> max_requests" and "sorted (map fst calls)"
  shows "int (length (window (run_checks max_requests new_limiter calls) ip)) \<le> max_requests
         \<and> sorted (window (run_checks max_requests new_limiter calls) ip)"
proof -
  have "\<forall>k. int (length (window new_limiter k)) \<le> max_requests"
    using assms(1) by (simp add: window_def new_limiter_def)
  then have len: "int (length (window (run_checks max_requests new_limiter calls) ip)) \<le> max_requests"
    using assms(1) by (rule window_length_run [rotated])
  have "\<exists>b. sorted (b # map fst calls)"
  proof (cases calls)
    case Nil
    then show ?thesis by simp
  next
    case (Cons c cs)
    with assms(2) have "sorted (fst c # map fst calls)" by simp
    then show ?thesis ..
  qed
  then obtain b where "sorted (b # map fst calls)" ..
  with windows_ordered_new obtain b'
    where "windows_ordered b' (run_checks max_requests new_limiter calls)"
    using windows_ordered_run by blast
  then have "sorted (window (run_checks max_requests new_limiter calls) ip)"
    by (simp add: windows_ordered_def)
  with len show ?thesis by simp
qed

theorem window_bounded_and_sorted_witness:
  "(0::int) \<le> 2 \<and> sorted (map fst [(0, ''a'', 60), (1, ''a'', 60), (1, ''b'', 60), (5, ''a'', 60::int)] :: real list)
   \<and> int (length (window (run_checks 2 new_limiter
          [(0, ''a'', 60), (1, ''a'', 60), (1, ''b'', 60), (5, ''a'', 60)]) ''a'')) \<le> 2
   \<and> sorted (window (run_checks 2 new_limiter
          [(0, ''a'', 60), (1, ''a'', 60), (1, ''b'', 60), (5, ''a'', 60)]) ''a'')
   \<and> window (run_checks 2 new_limiter
          [(0, ''a'', 60), (1, ''a'', 60), (1, ''b'', 60), (5, ''a'', 60)]) ''a'' = [0, 1]"
proof -
  have m: "(0::int) \<le> 2" by simp
  have c: "sorted (map fst [(0, ''a'', 60), (1, ''a'', 60), (1, ''b'', 60), (5, ''a'', 60::int)] :: real list)"
    by simp
  have v: "window (run_checks 2 new_limiter
          [(0, ''a'', 60), (1, ''a'', 60), (1, ''b'', 60), (5, ''a'', 60)]) ''a'' = [0, 1]"
    by (simp add: window_after_is_allowed window_new)
  show ?thesis
    using window_bounded_and_sorted [OF m c, of "''a''"] m c v by simp
qed

text \<open>
  Claim C8, as stated, fails: \<^verbatim>\<open>get_reset_time\<close> evicts nothing. After one admitted
  request at clock 0, a read at clock 100 with a 60-second window returns 60 (the stored timestamp
  plus the window), although that entry lies outside the trailing window and the specification's
  reading gives the current time 100.
\<close>

theorem get_reset_time_stale_counterexample:
  "fst (get_reset_time (snd (is_allowed new_limiter 0 ''10.0.0.1'' 3 60)) 100 ''10.0.0.1'' 60) = 60
   \<and> spec_reset_time (snd (is_allowed new_limiter 0 ''10.0.0.1'' 3 60)) 100 ''10.0.0.1'' 60 = 100"
  by (simp add: get_reset_time_def spec_reset_time_def window_after_is_allowed window_new)

lemma clean_old_front: "clean_old b ts = x # xs \<Longrightarrow> \<not> x < b"
  by (induction ts) (auto split: if_splits)

text \<open>
  Claim C8, amended. For every client key and every state of the limiter,
  \<^verbatim>\<open>get_reset_time\<close> performs no eviction: it returns the timestamp at the front of the
  window stored for the key (the earliest recorded entry that no \<^verbatim>\<open>is_allowed\<close> call has
  evicted yet, whether or not it has aged out since) plus \<open>window_seconds\<close>, and the current
  time when nothing is stored for the key; no stored window is changed by the read. Directly after
  an \<^verbatim>\<open>is_allowed\<close> check for the key, at the same clock reading and with the same
  non-negative window length, the value is the oldest retained entry plus the window length, as
  the specification reads it.
\<close>

theorem get_reset_time_front_stored:
  "(window s ip = [] \<longrightarrow> fst (get_reset_time s now ip w) = now)
   \<and> (window s ip \<noteq> [] \<longrightarrow>
        fst (get_reset_time s now ip w) = hd (window s ip) + of_int w)
   \<and> window (snd (get_reset_time s now ip w)) k = window s k
   \<and> (0 \<le> w \<longrightarrow>
        fst (get_reset_time (snd (is_allowed s now ip max_requests w)) now ip w)
        = spec_reset_time (snd (is_allowed s now ip max_requests w)) now ip w)"
proof -
  have empty: "window s ip = [] \<longrightarrow> fst (get_reset_time s now ip w) = now"
    by (simp add: get_reset_time_def Let_def)
  have front: "window s ip \<noteq> [] \<longrightarrow>
      fst (get_reset_time s now ip w) = hd (window s ip) + of_int w"
    by (cases "window s ip") (simp_all add: get_reset_time_def Let_def)
  have same: "window (snd (get_reset_time s now ip w)) k = window s k"
    by (cases "window s ip") (simp_all add: get_reset_time_def Let_def window_def)
  have fresh: "0 \<le> w \<longrightarrow>
        fst (get_reset_time (snd (is_allowed s now ip max_requests w)) now ip w)
        = spec_reset_time (snd (is_allowed s now ip max_requests w)) now ip w"
  proof
    assume w: "0 \<le> w"
    let ?s' = "snd (is_allowed s now ip max_requests w)"
    let ?dq = "clean_old (now - of_int w) (window s ip)"
    have keep: "\<not> now < now - of_int w" using w by simp
    show "fst (get_reset_time ?s' now ip w) = spec_reset_time ?s' now ip w"
    proof (cases ?dq)
      case Nil
      then have "window ?s' ip = [] \<or> window ?s' ip = [now]"
        by (simp add: window_after_is_allowed Let_def)
      then show ?thesis
        using keep by (auto simp: get_reset_time_def spec_reset_time_def Let_def)
    next
      case (Cons x xs)
      then have x: "\<not> x < now - of_int w" by (rule clean_old_front)
      from Cons have "window ?s' ip = x # xs \<or> window ?s' ip = x # xs @ [now]"
        by (simp add: window_after_is_allowed Let_def)
      then show ?thesis
        using x by (auto simp: get_reset_time_def spec_reset_time_def Let_def)
    qed
  qed
  from empty front same fresh show ?thesis by blast
qed

theorem get_reset_time_front_stored_witness:
  "window (run_checks 3 new_limiter [(0, ''a'', 60), (10, ''a'', 60)]) ''a'' = [0, 10]
   \<and> fst (get_reset_time (run_checks 3 new_limiter [(0, ''a'', 60), (10, ''a'', 60)]) 100 ''a'' 60)
       = 0 + 60
   \<and> fst (get_reset_time new_limiter 100 ''a'' 60) = 100
   \<and> fst (get_reset_time (snd (is_allowed new_limiter 100 ''a'' 3 60)) 100 ''a'' 60)
       = spec_reset_time (snd (is_allowed new_limiter 100 ''a'' 3 60)) 100 ''a'' 60"
proof -
  let ?s = "run_checks 3 new_limiter [(0, ''a'', 60), (10, ''a'', 60)]"
  have v: "window ?s ''a'' = [0, 10]"
    by (simp add: window_after_is_allowed window_new)
  have v0: "window new_limiter ''a'' = []" by (rule window_new)
  have w: "(0::int) \<le> 60" by simp
  note A = get_reset_time_front_stored [of ?s "''a''" 100 60]
  note B = get_reset_time_front_stored [of new_limiter "''a''" 100 60 _ 3]
  from A v have a: "fst (get_reset_time ?s 100 ''a'' 60) = 0 + 60" by simp
  from B v0 have b: "fst (get_reset_time new_limiter 100 ''a'' 60) = 100" by simp
  from B w have c: "fst (get_reset_time (snd (is_allowed new_limiter 100 ''a'' 3 60)) 100 ''a'' 60)
       = spec_reset_time (snd (is_allowed new_limiter 100 ''a'' 3 60)) 100 ''a'' 60" by simp
  from v a b c show ?thesis by simp
qed

section \<open>Properties of validate\_input\<close>

lemma strip_empty_iff: "strip s = [] \<longleftrightarrow> (\<forall>c \<in> set s. is_space c)"
proof
  assume "strip s = []"
  then have e: "dropWhile is_space (rev (dropWhile is_space s)) = []"
    by (simp add: strip_def)
  show "\<forall>c \<in> set s. is_space c"
  proof (cases "dropWhile is_space s")
    case Nil
    then show ?thesis by (simp add: dropWhile_eq_Nil_conv)
  next
    case (Cons x xs)
    then have "\<not> is_space x" using hd_dropWhile [of is_space s] by auto
    moreover from e Cons have "is_space x" by (simp add: dropWhile_eq_Nil_conv)
    ultimately show ?thesis by simp
  qed
next
  assume "\<forall>c \<in> set s. is_space c"
  then have d: "dropWhile is_space s = []" unfolding dropWhile_eq_Nil_conv .
  show "strip s = []" unfolding strip_def d by simp
qed

lemma sublist_lower_iff:
  "sublist p (lower q) \<longleftrightarrow> (\<exists>a x b. q = a @ x @ b \<and> lower x = p)"
proof
  assume "sublist p (lower q)"
  then obtain ps ss where "map lower_char q = ps @ p @ ss"
    by (auto simp: sublist_def lower_def)
  then obtain a r where q: "q = a @ r" and "p @ ss = map lower_char r"
    unfolding map_eq_append_conv by blast
  then obtain x b where "r = x @ b" and "map lower_char x = p"
    unfolding append_eq_map_conv by blast
  with q show "\<exists>a x b. q = a @ x @ b \<and> lower x = p"
    by (auto simp: lower_def)
next
  assume "\<exists>a x b. q = a @ x @ b \<and> lower x = p"
  then obtain a x b where "q = a @ x @ b" and "lower x = p" by blast
  then have "lower q = lower a @ p @ lower b" by (simp add: lower_def)
  then show "sublist p (lower q)" unfolding sublist_def by blast
qed

lemma count_words_map_of:
  "map_of (count_words wc ws) w =
     (if w \<in> set ws \<or> w \<in> fst ` set wc
      then Some ((case map_of wc w of None \<Rightarrow> 0 | Some n \<Rightarrow> n) + count_list ws w)
      else None)"
proof (induction ws arbitrary: wc)
  case Nil
  have "w \<in> fst ` set wc \<longleftrightarrow> map_of wc w \<noteq> None"
    by (simp add: map_of_eq_None_iff)
  then show ?case
    by (cases "map_of wc w") simp_all
next
  case (Cons v ws)
  show ?case
    by (simp add: Cons.IH update_conv' AList.dom_update) 
qed

lemma count_words_distinct:
  "distinct (map fst wc) \<Longrightarrow> distinct (map fst (count_words wc ws))"
  by (induction ws arbitrary: wc) (simp_all add: distinct_update)

lemma count_words_values:
  "snd ` set (count_words [] ws) = count_list ws ` set ws"
proof -
  have d: "distinct (map fst (count_words [] ws))"
    by (rule count_words_distinct) simp
  have "snd ` set (count_words [] ws) = ran (map_of (count_words [] ws))"
    using d by (simp add: ran_distinct)
  also have "\<dots> = count_list ws ` set ws"
    by (auto simp: ran_def count_words_map_of split: if_splits)
  finally show ?thesis .
qed

lemma max_repetition_iff:
  assumes "ws \<noteq> []"
  shows "real (length ws) * 0.5 < real (Max (set (map snd (count_words [] ws))))
         \<longleftrightarrow> (\<exists>w. length ws < 2 * count_list ws w)"
proof -
  let ?C = "count_list ws ` set ws"
  have fin: "finite ?C" and ne: "?C \<noteq> {}" using assms by auto
  have "real (length ws) * 0.5 < real (Max ?C) \<longleftrightarrow> length ws < 2 * Max ?C"
    by auto
  also have "\<dots> \<longleftrightarrow> (\<exists>c \<in> ?C. length ws < 2 * c)"
  proof
    assume "length ws < 2 * Max ?C"
    moreover have "Max ?C \<in> ?C" using fin ne by (rule Max_in)
    ultimately show "\<exists>c \<in> ?C. length ws < 2 * c" by blast
  next
    assume "\<exists>c \<in> ?C. length ws < 2 * c"
    then obtain c where c: "c \<in> ?C" "length ws < 2 * c" by blast
    then have "c \<le> Max ?C" using fin by simp
    with c show "length ws < 2 * Max ?C" by linarith
  qed
  also have "\<dots> \<longleftrightarrow> (\<exists>w. length ws < 2 * count_list ws w)"
  proof
    assume "\<exists>c \<in> ?C. length ws < 2 * c"
    then show "\<exists>w. length ws < 2 * count_list ws w" by blast
  next
    assume "\<exists>w. length ws < 2 * count_list ws w"
    then obtain w where w: "length ws < 2 * count_list ws w" by blast
    then have "w \<in> set ws" by (cases "w \<in> set ws") (simp_all add: count_list_0_iff)
    with w show "\<exists>c \<in> ?C. length ws < 2 * c" by blast
  qed
  finally show ?thesis by (simp add: count_words_values)
qed

lemma dangerous_patterns_lower: "p \<in> set dangerous_patterns \<Longrightarrow> lower p = p"
proof -
  have "list_all (\<lambda>p. lower p = p) dangerous_patterns" by code_simp
  then show "p \<in> set dangerous_patterns \<Longrightarrow> lower p = p"
    by (simp add: list_all_iff)
qed

lemma validate_input_cases:
  "validate_input q =
     (if q = [] \<or> (\<forall>c \<in> set q. is_space c)
      then Inl (ValidationError ''Message cannot be empty'')
      else if 2000 < length q
      then Inl (ValidationError ''Message is too long. Please keep it under 2000 characters.'')
      else if \<exists>p \<in> set dangerous_patterns. occurs_ci p q
      then Inl (ValidationError ''Message contains potentially harmful content'')
      else if 10 < length (split q) \<and> (\<exists>w. length (split q) < 2 * count_list (split q) w)
      then Inl (ValidationError ''Message appears to contain excessive repetition'')
      else Inr ())"
proof -
  have rep: "(10 < length (split q) \<and>
        real (length (split q)) * 0.5 < real (Max (set (map snd (count_words [] (split q))))))
      \<longleftrightarrow> (10 < length (split q) \<and> (\<exists>w. length (split q) < 2 * count_list (split q) w))"
    using max_repetition_iff [of "split q"] by fastforce
  have pat: "list_ex (\<lambda>pattern. sublist pattern (lower q)) dangerous_patterns
      \<longleftrightarrow> (\<exists>p \<in> set dangerous_patterns. occurs_ci p q)"
    using dangerous_patterns_lower
    by (auto simp: list_ex_iff sublist_lower_iff occurs_ci_def)
  show ?thesis
    unfolding validate_input_def Let_def strip_empty_iff pat rep by simp
qed

text \<open>
  Claim C5. \<^verbatim>\<open>validate_input\<close> raises, and then a \<^verbatim>\<open>ValidationError\<close>, exactly
  for the queries that are empty or whitespace only, longer than 2000 characters, contain one of
  the dangerous patterns in any mixture of case, or have more than ten words of which one makes
  up over half; for every other query it returns normally.
\<close>

theorem validate_input_raises_iff:
  "((\<exists>msg. validate_input q = Inl (ValidationError msg)) \<longleftrightarrow> spec_invalid q)
   \<and> (validate_input q = Inr () \<longleftrightarrow> \<not> spec_invalid q)"
  unfolding validate_input_cases spec_invalid_def by auto

theorem validate_input_raises_iff_witness:
  "validate_input ''Run <ScRiPt>alert(1)'' =
     Inl (ValidationError ''Message contains potentially harmful content'')
   \<and> spec_invalid ''Run <ScRiPt>alert(1)''
   \<and> validate_input ''go go go go go go go now to the end'' =
     Inl (ValidationError ''Message appears to contain excessive repetition'')
   \<and> spec_invalid ''go go go go go go go now to the end''
   \<and> validate_input ''What is the Pythagorean theorem?'' = Inr ()
   \<and> \<not> spec_invalid ''What is the Pythagorean theorem?''"
proof -
  have a: "validate_input ''Run <ScRiPt>alert(1)'' =
     Inl (ValidationError ''Message contains potentially harmful content'')"
    by code_simp
  have b: "validate_input ''go go go go go go go now to the end'' =
     Inl (ValidationError ''Message appears to contain excessive repetition'')"
    by code_simp
  have c: "validate_input ''What is the Pythagorean theorem?'' = Inr ()"
    by code_simp
  show ?thesis
    using validate_input_raises_iff [of "''Run <ScRiPt>alert(1)''"]
      validate_input_raises_iff [of "''go go go go go go go now to the end''"]
      validate_input_raises_iff [of "''What is the Pythagorean theorem?''"] a b c
    by simp
qed

section \<open>Properties of sanitize\_response\<close>





































text \<open>
  Each substitution is a single pass: text that a removal brings together is not scanned again,
  so a \<^verbatim>\<open>javascript:\<close> prefix can be left in the result. The docstring and the comments
  of \<^verbatim>\<open>sanitize_response\<close> (``Remove javascript: URLs'') do not provide for this.
\<close>

lemma sanitize_response_joined_text:
  "sanitize_response ''jajavascript:vascript:alert(1)'' = ''javascript:alert(1)''"
  by code_simp




section \<open>Properties of the generation client and the pipeline\<close>

lemma failed_then_call_0: "failed_then_call p a 0 = [GenerateContent p]"
  by (simp add: failed_then_call_def)

lemma failed_then_call_Suc:
  "failed_then_call p a (Suc k) = GenerateContent p # Sleep (2 ^ a) # failed_then_call p (Suc a) k"
  by (simp add: failed_then_call_def upt_rec [of a])

lemma attempts_failed_then_call: "attempts_made (failed_then_call p a k) = Suc k"
  by (induction k arbitrary: a) (simp_all add: failed_then_call_0 failed_then_call_Suc)

lemma sleeps_failed_then_call: "sleeps (failed_then_call p a k) = map (\<lambda>i. 2 ^ i) [a..<a + k]"
proof (induction k arbitrary: a)
  case 0
  show ?case by (simp add: failed_then_call_0)
next
  case (Suc k)
  have u: "[a..<a + Suc k] = a # [Suc a..<Suc a + k]" by (simp add: upt_conv_Cons)
  show ?case unfolding u failed_then_call_Suc by (simp add: Suc.IH)
qed

lemma retry_loop_all_fail:
  assumes "int (attempt + Suc k) = max_retries"
    and "\<forall>i. attempt \<le> i \<and> i \<le> attempt + k \<longrightarrow> (\<exists>e. mdl p i = Inl e)"
    and "mdl p (attempt + k) = Inl last_error"
  shows "retry_loop mdl p max_retries attempt (Suc k) =
           (Inl (RAGError (''Gemini API call failed after '' @ str_int max_retries
                           @ '' attempts: '' @ last_error)),
            failed_then_call p attempt k)"
  using assms
proof (induction k arbitrary: attempt)
  case 0
  then show ?case by (simp add: failed_then_call_0)
next
  case (Suc k)
  from Suc.prems(2) obtain e where e: "mdl p attempt = Inl e" by force
  have ne: "int attempt \<noteq> max_retries - 1" using Suc.prems(1) by simp
  have "retry_loop mdl p max_retries (Suc attempt) (Suc k) =
           (Inl (RAGError (''Gemini API call failed after '' @ str_int max_retries
                           @ '' attempts: '' @ last_error)),
            failed_then_call p (Suc attempt) k)"
    using Suc.prems by (intro Suc.IH) auto
  then show ?case
    using e ne by (simp add: failed_then_call_Suc del: retry_loop.simps(2) add: retry_loop.simps(2) [of _ _ _ attempt])
qed

lemma retry_loop_success:
  assumes "int (attempt + k) < max_retries"
    and "\<forall>i. attempt \<le> i \<and> i < attempt + k \<longrightarrow> (\<exists>e. mdl p i = Inl e)"
    and "mdl p (attempt + k) = Inr text"
    and "k < remaining"
  shows "retry_loop mdl p max_retries attempt remaining =
           (Inr (Some text), failed_then_call p attempt k)"
  using assms
proof (induction k arbitrary: attempt remaining)
  case 0
  then obtain r where "remaining = Suc r" by (cases remaining) auto
  with 0 show ?case by (simp add: failed_then_call_0)
next
  case (Suc k)
  from Suc.prems(4) obtain r where r: "remaining = Suc r" and kr: "k < r"
    by (cases remaining) auto
  from Suc.prems(2) obtain e where e: "mdl p attempt = Inl e" by force
  have ne: "int attempt \<noteq> max_retries - 1" using Suc.prems(1) by simp
  have "retry_loop mdl p max_retries (Suc attempt) r =
           (Inr (Some text), failed_then_call p (Suc attempt) k)"
    using Suc.prems kr by (intro Suc.IH) auto
  then show ?case
    using e ne unfolding r by (simp add: failed_then_call_Suc)
qed

text \<open>
  Claim C2, as stated, fails when \<open>max_retries\<close> is not positive: the loop body never runs, no
  attempt is made, and the function returns \<^verbatim>\<open>None\<close> instead of failing, although every
  attempt (there is none) failed.
\<close>

theorem call_gemini_with_retry_zero_counterexample:
  "call_gemini_with_retry \<lparr>index = None, model = (\<lambda>prompt k. Inl ''503 unavailable'')\<rparr>
     ''prompt'' 0 = (Inr None, [])"
  by (simp add: call_gemini_with_retry_def)

text \<open>
  Claim C2, amended: for every prompt and every \<open>max_retries \<ge> 1\<close>. If the model call fails
  on every attempt, exactly \<open>max_retries\<close> attempts are made, attempt \<open>i\<close> (from 0) is
  followed by a sleep of \<open>2 ^ i\<close> seconds except the last, and the call fails with a
  \<^verbatim>\<open>RAGError\<close> whose message carries the text of the last underlying error. If attempt
  \<open>k\<close> is the first to succeed, its text is returned at once: \<open>k + 1\<close> attempts, the sleeps
  of the \<open>k\<close> failures, and nothing after.
\<close>

theorem call_gemini_with_retry_attempts:
  assumes "1 \<le> max_retries"
  shows "((\<forall>i < nat max_retries. \<exists>e. model self prompt i = Inl e) \<longrightarrow>
            (\<exists>last_error trace.
               model self prompt (nat max_retries - 1) = Inl last_error
               \<and> call_gemini_with_retry self prompt max_retries =
                   (Inl (RAGError (''Gemini API call failed after '' @ str_int max_retries
                                   @ '' attempts: '' @ last_error)), trace)
               \<and> trace = failed_then_call prompt 0 (nat max_retries - 1)
               \<and> attempts_made trace = nat max_retries
               \<and> sleeps trace = map (\<lambda>i. 2 ^ i) [0..<nat max_retries - 1]))
       \<and> (\<forall>k reply. k < nat max_retries \<and> model self prompt k = Inr reply
               \<and> (\<forall>i < k. \<exists>e. model self prompt i = Inl e) \<longrightarrow>
            (\<exists>trace.
               call_gemini_with_retry self prompt max_retries = (Inr (Some reply), trace)
               \<and> trace = failed_then_call prompt 0 k
               \<and> attempts_made trace = k + 1
               \<and> sleeps trace = map (\<lambda>i. 2 ^ i) [0..<k]))"
proof (intro conjI impI allI)
  assume fail: "\<forall>i < nat max_retries. \<exists>e. model self prompt i = Inl e"
  obtain n where n: "nat max_retries = Suc n" using assms by (cases "nat max_retries") auto
  from fail n obtain last_error where le: "model self prompt n = Inl last_error" by auto
  have "retry_loop (model self) prompt max_retries 0 (Suc n) =
           (Inl (RAGError (''Gemini API call failed after '' @ str_int max_retries
                           @ '' attempts: '' @ last_error)),
            failed_then_call prompt 0 n)"
  proof (rule retry_loop_all_fail)
    show "int (0 + Suc n) = max_retries" using n assms by linarith
    show "\<forall>i. 0 \<le> i \<and> i \<le> 0 + n \<longrightarrow> (\<exists>e. model self prompt i = Inl e)"
      using fail n by auto
    show "model self prompt (0 + n) = Inl last_error" using le by simp
  qed
  then show "\<exists>last_error trace.
               model self prompt (nat max_retries - 1) = Inl last_error
               \<and> call_gemini_with_retry self prompt max_retries =
                   (Inl (RAGError (''Gemini API call failed after '' @ str_int max_retries
                                   @ '' attempts: '' @ last_error)), trace)
               \<and> trace = failed_then_call prompt 0 (nat max_retries - 1)
               \<and> attempts_made trace = nat max_retries
               \<and> sleeps trace = map (\<lambda>i. 2 ^ i) [0..<nat max_retries - 1]"
    using le n
    by (simp add: call_gemini_with_retry_def attempts_failed_then_call sleeps_failed_then_call)
next
  fix k reply
  assume a: "k < nat max_retries \<and> model self prompt k = Inr reply
               \<and> (\<forall>i < k. \<exists>e. model self prompt i = Inl e)"
  have "retry_loop (model self) prompt max_retries 0 (nat max_retries) =
           (Inr (Some reply), failed_then_call prompt 0 k)"
  proof (rule retry_loop_success)
    show "int (0 + k) < max_retries" using a by linarith
    show "\<forall>i. 0 \<le> i \<and> i < 0 + k \<longrightarrow> (\<exists>e. model self prompt i = Inl e)" using a by simp
    show "model self prompt (0 + k) = Inr reply" using a by simp
    show "k < nat max_retries" using a by simp
  qed
  then show "\<exists>trace.
               call_gemini_with_retry self prompt max_retries = (Inr (Some reply), trace)
               \<and> trace = failed_then_call prompt 0 k
               \<and> attempts_made trace = k + 1
               \<and> sleeps trace = map (\<lambda>i. 2 ^ i) [0..<k]"
    by (simp add: call_gemini_with_retry_def attempts_failed_then_call sleeps_failed_then_call)
qed

theorem call_gemini_with_retry_attempts_witness:
  "call_gemini_with_retry \<lparr>index = None, model = (\<lambda>prompt k. Inl ''503 unavailable'')\<rparr>
     ''prompt'' 3
   = (Inl (RAGError ''Gemini API call failed after 3 attempts: 503 unavailable''),
      [GenerateContent ''prompt'', Sleep 1, GenerateContent ''prompt'', Sleep 2,
       GenerateContent ''prompt''])
   \<and> call_gemini_with_retry
       \<lparr>index = None, model = (\<lambda>prompt k. if k = 1 then Inr ''x = 4'' else Inl ''timeout'')\<rparr>
       ''prompt'' 3
     = (Inr (Some ''x = 4''), [GenerateContent ''prompt'', Sleep 1, GenerateContent ''prompt''])"
proof -
  let ?a = "\<lparr>index = None, model = (\<lambda>prompt k. Inl ''503 unavailable'')\<rparr>"
  let ?b = "\<lparr>index = None,
             model = (\<lambda>prompt k. if k = 1 then Inr ''x = 4'' else Inl ''timeout'' :: string + string)\<rparr>"
  have m: "(1::int) \<le> 3" by simp
  have s3: "str_int 3 = ''3''" by code_simp
  have f2: "failed_then_call ''prompt'' 0 2
      = [GenerateContent ''prompt'', Sleep 1, GenerateContent ''prompt'', Sleep 2,
         GenerateContent ''prompt'']"
    by (simp add: failed_then_call_def upt_rec)
  have f1: "failed_then_call ''prompt'' 0 1
      = [GenerateContent ''prompt'', Sleep 1, GenerateContent ''prompt'']"
    by (simp add: failed_then_call_def upt_rec)
  have "\<forall>i < nat 3. \<exists>e. model ?a ''prompt'' i = Inl e" by simp
  with call_gemini_with_retry_attempts [OF m, of ?a "''prompt''"]
  have a: "call_gemini_with_retry ?a ''prompt'' 3
   = (Inl (RAGError ''Gemini API call failed after 3 attempts: 503 unavailable''),
      failed_then_call ''prompt'' 0 2)"
    by (auto simp: s3)
  have "(1::nat) < nat 3 \<and> model ?b ''prompt'' 1 = Inr ''x = 4''
        \<and> (\<forall>i < 1. \<exists>e. model ?b ''prompt'' i = Inl e)" by simp
  with call_gemini_with_retry_attempts [OF m, of ?b "''prompt''"]
  have b: "call_gemini_with_retry ?b ''prompt'' 3
     = (Inr (Some ''x = 4''), failed_then_call ''prompt'' 0 1)"
    by blast
  from a b show ?thesis unfolding f1 f2 by simp
qed

text \<open>
  Claim C3. For a query that passes validation and for which retrieval returns no passage,
  \<^verbatim>\<open>generate_response\<close> returns the fixed message as a normal result, and the trace of the
  generation client is empty: the model is never called.
\<close>

theorem generate_response_no_context:
  assumes "validate_input query = Inr ()"
    and "get_relevant_context md5_hexdigest settings self query None = Inr ([], scores)"
  shows "generate_response md5_hexdigest settings formatting_rules self query
         = (Inr no_information_message, [])"
  using assms by (simp add: generate_response_def)

theorem generate_response_no_context_witness:
  "validate_input ''What is a torus?'' = Inr ()
   \<and> get_relevant_context (\<lambda>t. None) default_settings
        \<lparr>index = Some (\<lambda>v k. Inr (Some
            [\<lparr>metadata = Some [(''text'', ''Area of a circle'')], score = Some 0.41\<rparr>])),
         model = (\<lambda>p k. Inr ''never used'')\<rparr>
        ''What is a torus?'' None = Inr ([], [])
   \<and> generate_response (\<lambda>t. None) default_settings ''RULES''
        \<lparr>index = Some (\<lambda>v k. Inr (Some
            [\<lparr>metadata = Some [(''text'', ''Area of a circle'')], score = Some 0.41\<rparr>])),
         model = (\<lambda>p k. Inr ''never used'')\<rparr>
        ''What is a torus?'' = (Inr no_information_message, [])"
proof -
  let ?svc = "\<lparr>index = Some (\<lambda>v k. Inr (Some
            [\<lparr>metadata = Some [(''text'', ''Area of a circle'')], score = Some 0.41\<rparr>])),
         model = (\<lambda>p k. Inr ''never used'')\<rparr>"
  have v: "validate_input ''What is a torus?'' = Inr ()" by code_simp
  have g: "get_relevant_context (\<lambda>t. None) default_settings ?svc ''What is a torus?'' None
           = Inr ([], [])"
    by (simp add: get_relevant_context_def default_settings_def documents_def
        similarity_scores_def has_text_def match_text_def match_score_def)
  from generate_response_no_context [OF v g] v g show ?thesis by simp
qed

section \<open>Properties of the embedding\<close>

lemma hash_values_length: "hash_values h = Some vals \<Longrightarrow> length vals = (length h + 1) div 2"
  by (induction h arbitrary: vals rule: hash_values.induct)
     (auto split: option.splits)

lemma get_free_embedding_length: "length (get_free_embedding md5_hexdigest text) = 384"
  by (auto simp: get_free_embedding_def split: option.splits)

text \<open>
  Claim C9, as stated, fails: the length of the vector is the constant 384 written in the
  function, whatever dimension is configured; \<^verbatim>\<open>vector_dimension\<close> is never read.
  With the digest of the empty text and a configured dimension of 768 the vector still has 384
  entries.
\<close>

theorem get_free_embedding_dimension_counterexample:
  "length (get_free_embedding (\<lambda>t. Some ''d41d8cd98f00b204e9800998ecf8427e'') []) = 384
   \<and> vector_dimension (default_settings\<lparr>vector_dimension := 768\<rparr>) = 768"
  by (simp add: get_free_embedding_length)

text \<open>
  Claim C9, amended. The embedding is a function of the text alone (through its MD5 digest; no
  state, clock or setting is read), so repeated calls on one text give one vector. Its length is
  always exactly 384, which is the default of the configured \<^verbatim>\<open>vector_dimension\<close> and is
  not changed by configuring another one. Any error inside the computation gives the all-zero
  vector of 384 entries; otherwise the vector is the digest's byte values divided by 255 (one for
  every two hex digits), padded with zeros.
\<close>

theorem get_free_embedding_fixed_dimension:
  "length (get_free_embedding md5_hexdigest text) = 384
   \<and> int (length (get_free_embedding md5_hexdigest text)) = vector_dimension default_settings
   \<and> (md5_hexdigest text = None \<longrightarrow> get_free_embedding md5_hexdigest text = replicate 384 0)
   \<and> (\<forall>h. md5_hexdigest text = Some h \<and> hash_values h = None
          \<longrightarrow> get_free_embedding md5_hexdigest text = replicate 384 0)
   \<and> (\<forall>h vals. md5_hexdigest text = Some h \<and> hash_values h = Some vals \<and> length h \<le> 768
          \<longrightarrow> length vals = (length h + 1) div 2
              \<and> get_free_embedding md5_hexdigest text = vals @ replicate (384 - length vals) 0)"
proof -
  have "length vals = (length h + 1) div 2
        \<and> get_free_embedding md5_hexdigest text = vals @ replicate (384 - length vals) 0"
    if "md5_hexdigest text = Some h" and "hash_values h = Some vals" and "length h \<le> 768"
    for h vals
  proof -
    have l: "length vals = (length h + 1) div 2" using that(2) by (rule hash_values_length)
    with that(3) have "length vals \<le> 384" by simp
    then show ?thesis using that(1,2) l by (simp add: get_free_embedding_def)
  qed
  note padded = this
  have none: "md5_hexdigest text = None \<longrightarrow> get_free_embedding md5_hexdigest text = replicate 384 0"
    by (simp add: get_free_embedding_def)
  have bad: "\<forall>h. md5_hexdigest text = Some h \<and> hash_values h = None
          \<longrightarrow> get_free_embedding md5_hexdigest text = replicate 384 0"
    by (simp add: get_free_embedding_def)
  have dim: "int (length (get_free_embedding md5_hexdigest text)) = vector_dimension default_settings"
    by (simp add: get_free_embedding_length default_settings_def)
  from get_free_embedding_length [of md5_hexdigest "text"] dim none bad padded
  show ?thesis by blast
qed

theorem get_free_embedding_fixed_dimension_witness:
  "hash_values ''d41d8cd98f00b204e9800998ecf8427e'' \<noteq> None
   \<and> length (get_free_embedding (\<lambda>t. Some ''d41d8cd98f00b204e9800998ecf8427e'') []) = 384
   \<and> length (the (hash_values ''d41d8cd98f00b204e9800998ecf8427e'')) = 16
   \<and> get_free_embedding (\<lambda>t. Some ''d41d8cd98f00b204e9800998ecf8427e'') []
       = the (hash_values ''d41d8cd98f00b204e9800998ecf8427e'') @ replicate 368 0
   \<and> get_free_embedding (\<lambda>t. None) ''x'' = replicate 384 0
   \<and> get_free_embedding (\<lambda>t. Some ''not hex'') ''x'' = replicate 384 0"
proof -
  let ?h = "''d41d8cd98f00b204e9800998ecf8427e''"
  have hv: "hash_values ?h \<noteq> None" by code_simp
  then obtain vals where v: "hash_values ?h = Some vals" by blast
  have nh: "hash_values ''not hex'' = None" by code_simp
  have len: "length ?h \<le> 768" by simp
  note A = get_free_embedding_fixed_dimension [of "\<lambda>t. Some ?h" "[]"]
  note B = get_free_embedding_fixed_dimension [of "\<lambda>t. None" "''x''"]
  note C = get_free_embedding_fixed_dimension [of "\<lambda>t. Some ''not hex''" "''x''"]
  from A v len have a: "length vals = 16
      \<and> get_free_embedding (\<lambda>t. Some ?h) [] = vals @ replicate (384 - length vals) 0"
    by simp
  from A have a': "length (get_free_embedding (\<lambda>t. Some ?h) []) = 384" by blast
  from B have b: "get_free_embedding (\<lambda>t. None) ''x'' = replicate 384 0" by simp
  from C nh have c: "get_free_embedding (\<lambda>t. Some ''not hex'') ''x'' = replicate 384 0" by simp
  from a a' b c hv v show ?thesis by simp
qed

section \<open>Properties of retrieval\<close>

lemma documents_scores_length: "length (documents ms) = length (similarity_scores ms)"
  by (simp add: documents_def similarity_scores_def)

lemma get_relevant_context_result:
  assumes "get_relevant_context md5_hexdigest settings self query n_results = Inr (docs, scores)"
  shows "\<exists>idx k res. index self = Some idx
           \<and> idx (get_free_embedding md5_hexdigest (enhance_query query)) k = Inr res
           \<and> zip docs scores =
               filter (\<lambda>(doc, s). similarity_threshold settings \<le> s)
                 (zip (documents (case res of None \<Rightarrow> [] | Some ms \<Rightarrow> ms))
                      (similarity_scores (case res of None \<Rightarrow> [] | Some ms \<Rightarrow> ms)))
           \<and> docs = map fst (zip docs scores) \<and> scores = map snd (zip docs scores)"
proof -
  from assms obtain idx where idx: "index self = Some idx"
    by (auto simp: get_relevant_context_def split: option.splits)
  let ?k = "case n_results of None \<Rightarrow> max_context_chunks settings
            | Some n \<Rightarrow> if n = 0 then max_context_chunks settings else n"
  let ?v = "get_free_embedding md5_hexdigest (enhance_query query)"
  from assms idx obtain res where res: "idx ?v ?k = Inr res"
    by (auto simp: get_relevant_context_def Let_def split: sum.splits)
  let ?ms = "case res of None \<Rightarrow> [] | Some ms \<Rightarrow> ms"
  let ?f = "filter (\<lambda>(doc, s). similarity_threshold settings \<le> s)
              (zip (documents ?ms) (similarity_scores ?ms))"
  from assms idx res have d: "docs = map fst ?f" and s: "scores = map snd ?f"
    by (simp_all add: get_relevant_context_def Let_def)
  then have z: "zip docs scores = ?f" by (simp add: zip_map_fst_snd)
  have "docs = map fst (zip docs scores)" "scores = map snd (zip docs scores)"
    unfolding z using d s by simp_all
  with idx res z show ?thesis by blast
qed


text \<open>
  Claim C6. Whatever matches the store returns, every passage \<^verbatim>\<open>_get_relevant_context\<close>
  returns has a score of at least the configured threshold, and the returned passages with
  their scores are exactly the store's ranking with the entries below the threshold removed:
  the order is the store's, nothing is sorted again; and whenever the store answers the query,
  that filtered ranking is returned. With the scores 0.9, 0.65 and 0.71 and the
  threshold 0.7 the first and the third passage are returned, in that order.
\<close>

theorem get_relevant_context_threshold:
  "(get_relevant_context md5_hexdigest settings self query n_results = Inr (docs, scores) \<longrightarrow>
      (\<forall>s \<in> set scores. similarity_threshold settings \<le> s)
      \<and> length docs = length scores
      \<and> (\<exists>idx k res. index self = Some idx
            \<and> idx (get_free_embedding md5_hexdigest (enhance_query query)) k = Inr res
            \<and> zip docs scores =
                filter (\<lambda>(doc, s). similarity_threshold settings \<le> s) (store_ranking res)
            \<and> subseq (zip docs scores) (store_ranking res)))
   \<and> (index self = Some idx'
        \<and> idx' (get_free_embedding md5_hexdigest (enhance_query query))
              (case n_results of None \<Rightarrow> max_context_chunks settings
               | Some n \<Rightarrow> if n = 0 then max_context_chunks settings else n) = Inr res'
      \<longrightarrow> get_relevant_context md5_hexdigest settings self query n_results
          = Inr (map fst (filter (\<lambda>(doc, s). similarity_threshold settings \<le> s)
                            (store_ranking res')),
                 map snd (filter (\<lambda>(doc, s). similarity_threshold settings \<le> s)
                            (store_ranking res'))))
   \<and> get_relevant_context md5_hexdigest default_settings
        \<lparr>index = Some (\<lambda>v k. Inr (Some
           [\<lparr>metadata = Some [(''text'', a)], score = Some 0.9\<rparr>,
            \<lparr>metadata = Some [(''text'', b)], score = Some 0.65\<rparr>,
            \<lparr>metadata = Some [(''text'', c)], score = Some 0.71\<rparr>])),
         model = mdl\<rparr> query None
      = Inr ([a, c], [0.9, 0.71])"
proof (intro conjI impI)
  assume r: "get_relevant_context md5_hexdigest settings self query n_results = Inr (docs, scores)"
  from get_relevant_context_result [OF r] obtain idx k res where
    idx: "index self = Some idx"
    and res: "idx (get_free_embedding md5_hexdigest (enhance_query query)) k = Inr res"
    and z: "zip docs scores =
              filter (\<lambda>(doc, s). similarity_threshold settings \<le> s) (store_ranking res)"
    and d: "docs = map fst (zip docs scores)" and s: "scores = map snd (zip docs scores)"
    unfolding store_ranking_def Let_def by blast
  have "\<forall>p \<in> set (zip docs scores). similarity_threshold settings \<le> snd p"
    unfolding z by auto
  then have "\<forall>x \<in> set (map snd (zip docs scores)). similarity_threshold settings \<le> x"
    by auto
  with s show "\<forall>s \<in> set scores. similarity_threshold settings \<le> s" by simp
  have "length (map fst (zip docs scores)) = length (map snd (zip docs scores))" by simp
  with d s show "length docs = length scores" by simp
  have "subseq (zip docs scores) (store_ranking res)"
    unfolding z by (rule subseq_filter_left)
  with idx res z show "\<exists>idx k res. index self = Some idx
            \<and> idx (get_free_embedding md5_hexdigest (enhance_query query)) k = Inr res
            \<and> zip docs scores =
                filter (\<lambda>(doc, s). similarity_threshold settings \<le> s) (store_ranking res)
            \<and> subseq (zip docs scores) (store_ranking res)"
    by blast
next
  assume "index self = Some idx'
        \<and> idx' (get_free_embedding md5_hexdigest (enhance_query query))
              (case n_results of None \<Rightarrow> max_context_chunks settings
               | Some n \<Rightarrow> if n = 0 then max_context_chunks settings else n) = Inr res'"
  then show "get_relevant_context md5_hexdigest settings self query n_results
          = Inr (map fst (filter (\<lambda>(doc, s). similarity_threshold settings \<le> s)
                            (store_ranking res')),
                 map snd (filter (\<lambda>(doc, s). similarity_threshold settings \<le> s)
                            (store_ranking res')))"
    by (simp add: get_relevant_context_def store_ranking_def Let_def)
next
  show "get_relevant_context md5_hexdigest default_settings
        \<lparr>index = Some (\<lambda>v k. Inr (Some
           [\<lparr>metadata = Some [(''text'', a)], score = Some 0.9\<rparr>,
            \<lparr>metadata = Some [(''text'', b)], score = Some 0.65\<rparr>,
            \<lparr>metadata = Some [(''text'', c)], score = Some 0.71\<rparr>])),
         model = mdl\<rparr> query None
      = Inr ([a, c], [0.9, 0.71])"
    by (simp add: get_relevant_context_def default_settings_def documents_def
        similarity_scores_def has_text_def match_text_def match_score_def)
qed

theorem get_relevant_context_threshold_witness:
  "get_relevant_context (\<lambda>t. None) default_settings
        \<lparr>index = Some (\<lambda>v k. Inr (Some
           [\<lparr>metadata = Some [(''text'', ''Pythagoras'')], score = Some 0.9\<rparr>,
            \<lparr>metadata = Some [(''text'', ''Compound interest'')], score = Some 0.65\<rparr>,
            \<lparr>metadata = Some [(''text'', ''Right triangles'')], score = Some 0.71\<rparr>])),
         model = (\<lambda>p k. Inl ''unused'')\<rparr> ''hypotenuse'' None
      = Inr ([''Pythagoras'', ''Right triangles''], [0.9, 0.71])
   \<and> similarity_threshold default_settings \<le> 0.9
   \<and> similarity_threshold default_settings \<le> 0.71
   \<and> length [''Pythagoras'', ''Right triangles''] = length [0.9, 0.71 :: real]"
proof -
  note T = get_relevant_context_threshold [where md5_hexdigest = "\<lambda>t. None"
      and settings = default_settings and n_results = None
      and self = "\<lparr>index = Some (\<lambda>v k. Inr (Some
           [\<lparr>metadata = Some [(''text'', ''Pythagoras'')], score = Some 0.9\<rparr>,
            \<lparr>metadata = Some [(''text'', ''Compound interest'')], score = Some 0.65\<rparr>,
            \<lparr>metadata = Some [(''text'', ''Right triangles'')], score = Some 0.71\<rparr>])),
         model = (\<lambda>p k. Inl ''unused'')\<rparr>"
      and docs = "[''Pythagoras'', ''Right triangles'']" and scores = "[0.9, 0.71]"
      and a = "''Pythagoras''" and b = "''Compound interest''" and c = "''Right triangles''"
      and mdl = "\<lambda>p k. Inl ''unused''" and query = "''hypotenuse''"]
  then show ?thesis by simp
qed

section \<open>Properties of context assembly\<close>

lemma dedup_loop_fresh:
  "dedup_loop unique seen chunks = unique @ fresh_chunks seen chunks"
  by (induction chunks arbitrary: unique seen) (simp_all add: Let_def)

lemma unique_context_fresh: "unique_context chunks = fresh_chunks {} chunks"
  by (simp add: unique_context_def dedup_loop_fresh)

lemma fresh_chunks_subseq: "subseq (fresh_chunks seen chunks) chunks"
  by (induction chunks arbitrary: seen) auto

lemma fresh_chunks_keys:
  "take 50 ` set (fresh_chunks seen chunks) = take 50 ` set chunks - seen"
  by (induction chunks arbitrary: seen) auto

lemma fresh_chunks_distinct: "distinct (map (take 50) (fresh_chunks seen chunks))"
proof (induction chunks arbitrary: seen)
  case Nil
  show ?case by simp
next
  case (Cons c chunks)
  have "take 50 c \<notin> take 50 ` set (fresh_chunks (insert (take 50 c) seen) chunks)"
    unfolding fresh_chunks_keys by simp
  then show ?case using Cons.IH by simp
qed

lemma fresh_chunks_first:
  "c \<in> set (fresh_chunks seen chunks) \<Longrightarrow>
   find (\<lambda>d. take 50 d = take 50 c) chunks = Some c"
proof (induction chunks arbitrary: seen)
  case Nil
  then show ?case by simp
next
  case (Cons x chunks)
  show ?case
  proof (cases "take 50 x \<in> seen")
    case True
    with Cons.prems have c: "c \<in> set (fresh_chunks seen chunks)" by simp
    then have "take 50 c \<in> take 50 ` set (fresh_chunks seen chunks)" by (rule imageI)
    then have "take 50 c \<notin> seen" unfolding fresh_chunks_keys by simp
    with True have "take 50 x \<noteq> take 50 c" by auto
    with Cons.IH [OF c] show ?thesis by simp
  next
    case False
    show ?thesis
    proof (cases "c = x")
      case True
      then show ?thesis by simp
    next
      case ne: False
      with False Cons.prems
      have c: "c \<in> set (fresh_chunks (insert (take 50 x) seen) chunks)" by simp
      then have "take 50 c \<in> take 50 ` set (fresh_chunks (insert (take 50 x) seen) chunks)"
        by (rule imageI)
      then have "take 50 c \<noteq> take 50 x" unfolding fresh_chunks_keys by auto
      with Cons.IH [OF c] show ?thesis by simp
    qed
  qed
qed

lemma fresh_chunks_insert:
  "fresh_chunks (insert k seen) chunks =
     fresh_chunks seen (filter (\<lambda>d. take 50 d \<noteq> k) chunks)"
proof (induction chunks arbitrary: seen)
  case Nil
  show ?case by simp
next
  case (Cons c chunks)
  show ?case
  proof (cases "take 50 c = k")
    case True
    then show ?thesis using Cons.IH [of seen] by simp
  next
    case False
    show ?thesis
    proof (cases "take 50 c \<in> seen")
      case True
      with False show ?thesis using Cons.IH [of seen] by simp
    next
      case notin: False
      have "insert (take 50 c) (insert k seen) = insert k (insert (take 50 c) seen)"
        by (rule insert_commute)
      with False notin show ?thesis using Cons.IH [of "insert (take 50 c) seen"] by simp
    qed
  qed
qed

lemma unique_context_Cons:
  "unique_context (c # cs) = c # unique_context (filter (\<lambda>d. take 50 d \<noteq> take 50 c) cs)"
  by (simp add: unique_context_fresh fresh_chunks_insert)

text \<open>
  Claim C7. Context assembly keeps the first passage and then treats in the same way the later
  passages that do not share its first 50 characters: so exactly the first passage of each
  distinct 50-character prefix is kept, every later passage with a prefix already seen is dropped
  (an exact repetition included), and the kept passages stand in the order in which they came.
  Hence the kept passages are a subsequence of the input, no two of them share their prefix,
  every prefix of the input is the prefix of a kept passage, and each kept passage is the first
  passage of the input with its prefix. The context block is the kept passages joined by a blank
  line, and it is what the prompt carries between the framing and the question.
\<close>

theorem unique_context_first_per_prefix:
  "unique_context [] = []
   \<and> unique_context (c # cs)
       = c # unique_context (filter (\<lambda>d. take 50 d \<noteq> take 50 c) cs)
   \<and> subseq (unique_context chunks) chunks
   \<and> distinct (map (take 50) (unique_context chunks))
   \<and> take 50 ` set (unique_context chunks) = take 50 ` set chunks
   \<and> (\<forall>c \<in> set (unique_context chunks).
         find (\<lambda>d. take 50 d = take 50 c) chunks = Some c)
   \<and> context_block chunks = join ''\<newline>\<newline>'' (unique_context chunks)
   \<and> join sep [] = [] \<and> join sep [x] = x
   \<and> (ys \<noteq> [] \<longrightarrow> join sep (x # ys) = x @ sep @ join sep ys)
   \<and> construct_enhanced_prompt formatting_rules query chunks
       = prompt_head @ context_block chunks @ question_label @ query
         @ ''\<newline>\<newline>'' @ formatting_rules"
proof -
  have j: "ys \<noteq> [] \<longrightarrow> join sep (x # ys) = x @ sep @ join sep ys"
    by (cases ys) simp_all
  have f: "\<forall>c \<in> set (unique_context chunks).
         find (\<lambda>d. take 50 d = take 50 c) chunks = Some c"
    unfolding unique_context_fresh using fresh_chunks_first by blast
  have k: "take 50 ` set (unique_context chunks) = take 50 ` set chunks"
    unfolding unique_context_fresh fresh_chunks_keys by simp
  have e: "unique_context [] = []" by (simp add: unique_context_fresh)
  have r: "unique_context (c # cs)
       = c # unique_context (filter (\<lambda>d. take 50 d \<noteq> take 50 c) cs)"
    by (rule unique_context_Cons)
  have s: "subseq (unique_context chunks) chunks"
    by (simp add: unique_context_fresh fresh_chunks_subseq)
  have d: "distinct (map (take 50) (unique_context chunks))"
    by (simp add: unique_context_fresh fresh_chunks_distinct)
  have c: "context_block chunks = join ''\<newline>\<newline>'' (unique_context chunks)"
    by (simp add: context_block_def)
  have p: "construct_enhanced_prompt formatting_rules query chunks
       = prompt_head @ context_block chunks @ question_label @ query
         @ ''\<newline>\<newline>'' @ formatting_rules"
    by (simp add: construct_enhanced_prompt_def)
  have j0: "join sep [] = [] \<and> join sep [x] = x" by simp
  from e r s d k f c j0 j p show ?thesis by blast
qed

theorem unique_context_first_per_prefix_witness:
  "unique_context [''Circle area'', ''Sine rule'', ''Circle area''] = [''Circle area'', ''Sine rule'']
   \<and> unique_context
     [''The Pythagorean theorem relates the sides of a right triangle: a^2 + b^2 = c^2.'',
      ''The Pythagorean theorem relates the sides of a right triangle, as Euclid showed.'',
      ''Area formulas for plane figures.'']
   = [''The Pythagorean theorem relates the sides of a right triangle: a^2 + b^2 = c^2.'',
      ''Area formulas for plane figures.'']
   \<and> context_block
     [''The Pythagorean theorem relates the sides of a right triangle: a^2 + b^2 = c^2.'',
      ''The Pythagorean theorem relates the sides of a right triangle, as Euclid showed.'',
      ''Area formulas for plane figures.'']
   = ''The Pythagorean theorem relates the sides of a right triangle: a^2 + b^2 = c^2.''
     @ ''\<newline>\<newline>'' @ ''Area formulas for plane figures.''"
proof -
  let ?p1 = "''The Pythagorean theorem relates the sides of a right triangle: a^2 + b^2 = c^2.''"
  let ?p2 = "''The Pythagorean theorem relates the sides of a right triangle, as Euclid showed.''"
  let ?p3 = "''Area formulas for plane figures.''"
  note E = unique_context_first_per_prefix
  have f1: "filter (\<lambda>d. take 50 d \<noteq> take 50 ''Circle area'') [''Sine rule'', ''Circle area'']
            = [''Sine rule'']" by simp
  have f2: "filter (\<lambda>d. take 50 d \<noteq> take 50 ''Sine rule'') [] = []" by simp
  have a: "unique_context [''Circle area'', ''Sine rule'', ''Circle area'']
           = [''Circle area'', ''Sine rule'']"
    using E [where c = "''Circle area''" and cs = "[''Sine rule'', ''Circle area'']"]
      E [where c = "''Sine rule''" and cs = "[]"]
    unfolding f1 f2 by simp
  have g1: "filter (\<lambda>d. take 50 d \<noteq> take 50 ?p1) [?p2, ?p3] = [?p3]" by simp
  have g2: "filter (\<lambda>d. take 50 d \<noteq> take 50 ?p3) [] = []" by simp
  have b: "unique_context [?p1, ?p2, ?p3] = [?p1, ?p3]"
    using E [where c = ?p1 and cs = "[?p2, ?p3]"] E [where c = ?p3 and cs = "[]"]
    unfolding g1 g2 by simp
  have c: "context_block [?p1, ?p2, ?p3] = ?p1 @ ''\<newline>\<newline>'' @ ?p3"
    using E [where chunks = "[?p1, ?p2, ?p3]" and sep = "''\<newline>\<newline>''"
        and x = ?p1 and ys = "[?p3]"]
      E [where sep = "''\<newline>\<newline>''" and x = ?p3]
    unfolding b by simp
  from a b c show ?thesis by blast
qed

end
